theory Spec2Isabelle
  imports Complex_Main "HOL-Library.AList"
begin

section \<open>Per-destination tracer (tracer/tracer.py)\<close>

text \<open>
  A hop is an IP string or \<open>None\<close> (no responder). Timestamps are the floats of
  \<open>get_utc_time()\<close>; only their values are stored, so they are modelled as reals.

  The slots of the \<open>Trace\<close> namedtuple hold Python values of more than one type, and
  Python's \<open>==\<close> never identifies a tuple with a list or \<open>None\<close> with either, so each
  such slot is a small datatype:
  \<^item> \<open>dports\<close>: \<open>None\<close> (the constructor's default), the tuple of port strings the
    sampler produces, or the list \<open>[]\<close> of the sentinel;
  \<^item> \<open>cnames\<close>: an integer or a list of names;
  \<^item> \<open>traceback\<close>: \<open>None\<close> (what \<open>Tracer.traceback()\<close> returns) or a list.
\<close>

type_synonym hop = "string option"

datatype ports = PortsNone | PortsTuple "string list" | PortsList "string list"

datatype cnames_slot = CnamesInt int | CnamesList "string list"

datatype traceback_slot = TracebackNone | TracebackList "string list"

record Trace =
  start :: real
  destination :: string
  change :: bool
  duration :: real
  trace :: "hop list"
  traceback :: traceback_slot
  dports :: ports
  cnames :: cnames_slot

text \<open>The fields of \<open>Tracer.__init__\<close> that the loop reads or writes.\<close>

record Tracer =
  self_destination :: string
  only_changes :: bool
  history :: "Trace list"
  self_proto :: "string option"
  running :: bool
  self_dports :: ports
  self_cnames :: "string list"

definition Tracer_init :: "string \<Rightarrow> bool \<Rightarrow> string option \<Rightarrow> Tracer" where
  "Tracer_init dest only_chg pr =
     \<lparr> self_destination = dest, only_changes = only_chg, history = [], self_proto = pr,
       running = False, self_dports = PortsNone, self_cnames = [] \<rparr>"

text \<open>
  The locals of \<open>Tracer._loop\<close> that survive an iteration: \<open>last\<close> (here \<open>last_tr\<close>,
  since \<open>last\<close> is a list function) and \<open>dports_last\<close>, next to the tracer itself.
\<close>

record loop_state =
  self :: Tracer
  last_tr :: "hop list option"
  dports_last :: ports

definition max_ttl :: nat where
  "max_ttl = 64"

text \<open>Python's \<open>any(tr)\<close>: some element is truthy, that is neither \<open>None\<close> nor \<open>''\<close>.\<close>

definition truthy_hop :: "hop \<Rightarrow> bool" where
  "truthy_hop h = (case h of None \<Rightarrow> False | Some s \<Rightarrow> s \<noteq> [])"

definition any_hops :: "hop list \<Rightarrow> bool" where
  "any_hops tr = list_ex truthy_hop tr"

text \<open>Lines 111-118: the pointwise merge, done only when the lengths agree.\<close>

definition merged_trace :: "hop list option \<Rightarrow> hop list \<Rightarrow> hop list" where
  "merged_trace lst tr =
     (case lst of
        None \<Rightarrow> tr
      | Some l \<Rightarrow>
          if length tr = length l
          then map (\<lambda>(oldhop, newhop). if newhop = None then oldhop else newhop) (zip l tr)
          else tr)"

text \<open>Lines 120-123: the change flag.\<close>

definition change_flag :: "hop list option \<Rightarrow> ports \<Rightarrow> hop list \<Rightarrow> ports \<Rightarrow> bool" where
  "change_flag lst dlast tr d =
     (if lst = None \<or> dlast = PortsNone then True
      else \<not> (Some tr = lst \<and> dlast = d))"

text \<open>
  One pass through the body of the \<open>while\<close> loop (lines 93-136), given the two clock
  readings and the result of \<open>one_trace\<close>. The three \<open>continue\<close> branches leave the
  state as it is. \<open>tr[-1]\<close> is read only after \<open>any(tr)\<close> held, so \<open>tr\<close> is not empty
  there.
\<close>

definition loop_body :: "loop_state \<Rightarrow> real \<Rightarrow> real \<Rightarrow> hop list \<Rightarrow> loop_state" where
  "loop_body st start_t end_t tr0 =
     (if \<not> any_hops tr0 then st
      else if length tr0 = max_ttl - 1 then st
      else if List.last tr0 = None then st
      else
        let tr = merged_trace (last_tr st) tr0;
            d = self_dports (self st);
            chg = change_flag (last_tr st) (dports_last st) tr d;
            last' = (if chg then Some tr else last_tr st);
            hist' = (if \<not> only_changes (self st) \<or> chg
                     then history (self st) @
                          [\<lparr> start = start_t, destination = self_destination (self st),
                             change = chg, duration = end_t - start_t, trace = tr,
                             traceback = TracebackNone, dports = d, cnames = CnamesInt 2 \<rparr>]
                     else history (self st))
        in \<lparr> self = (self st)\<lparr> history := hist' \<rparr>, last_tr = last', dports_last = d \<rparr>)"

text \<open>Lines 140-142: the sentinel appended once the loop is left.\<close>

definition loop_exit :: "real \<Rightarrow> loop_state \<Rightarrow> loop_state" where
  "loop_exit now st =
     st\<lparr> self := (self st)\<lparr> history := history (self st) @
          [\<lparr> start = now, destination = self_destination (self st), change = True,
             duration = 0, trace = [], traceback = TracebackList [], dports = PortsList [],
             cnames = CnamesList (self_cnames (self st)) \<rparr>] \<rparr> \<rparr>"

text \<open>
  What happens to a tracer while its loop runs: the supervisor assigns \<open>dports\<close> between
  two iterations (the loop body has no suspension point after \<open>one_trace\<close> returns:
  \<open>traceback()\<close> never suspends), or the loop makes one iteration.
\<close>

datatype event = SetDports ports | Iteration real real "hop list"

fun step :: "loop_state \<Rightarrow> event \<Rightarrow> loop_state" where
  "step st (SetDports d) = st\<lparr> self := (self st)\<lparr> self_dports := d \<rparr> \<rparr>"
| "step st (Iteration s e tr) = loop_body st s e tr"

definition loop_start :: "Tracer \<Rightarrow> loop_state" where
  "loop_start t = \<lparr> self = t\<lparr> running := True \<rparr>, last_tr = None, dports_last = PortsNone \<rparr>"

text \<open>
  \<open>astart\<close> sets \<open>running\<close> and enters the loop. The events are the assignments and
  the iterations that took place before \<open>running\<close> was cleared; with a zero
  \<open>trace_interval\<close> the \<open>while\<close> condition fails at once and nothing is traced.
\<close>

definition run :: "Tracer \<Rightarrow> int \<Rightarrow> event list \<Rightarrow> loop_state" where
  "run t trace_interval evs =
     (if trace_interval \<noteq> 0 then foldl step (loop_start t) evs else loop_start t)"

text \<open>
  The relation the loop keeps between two neighbours of the history: the later record is
  flagged exactly when the earlier record's \<open>dports\<close> is \<open>None\<close>, or the hops differ,
  or the \<open>dports\<close> differ.
\<close>

fun change_consistent :: "Trace list \<Rightarrow> bool" where
  "change_consistent (a # b # rest) =
     ((change b = (dports a = PortsNone \<or> trace b \<noteq> trace a \<or> dports b \<noteq> dports a))
      \<and> change_consistent (b # rest))"
| "change_consistent _ = True"

text \<open>
  The loop invariant: the history is consistent in that sense, no record of it has an
  empty hop list, and \<open>last\<close>, \<open>dports_last\<close> are the hops and ports of its newest record
  (an accepted trace that is not appended changes neither).
\<close>

definition loop_inv :: "loop_state \<Rightarrow> bool" where
  "loop_inv st =
     (let h = history (self st) in
        change_consistent h
        \<and> (\<forall>T \<in> set h. trace T \<noteq> [])
        \<and> (h = [] \<longrightarrow> last_tr st = None)
        \<and> (h \<noteq> [] \<longrightarrow> change (hd h) \<and> last_tr st = Some (trace (List.last h))
                        \<and> dports_last st = dports (List.last h)))"

section \<open>Traceroute driver (tracer/traceroute.py)\<close>

text \<open>
  What the model raises. \<open>TracerouteError\<close> carries its message.
\<close>

datatype error = TracerouteError string | IndexError | KeyError | ValueError

text \<open>
  The classes. \<open>BSDTraceroute\<close> inherits everything from \<open>Traceroute\<close>; the other two
  override the capability sets and the command lines, \<open>LinuxTraceroute\<close> also
  \<open>parse_output\<close>.
\<close>

datatype impl = Traceroute | BSDTraceroute | LinuxTraceroute | WindowsTraceroute

record traceroute =
  cls :: impl
  giveup :: int
  max_hops :: int
  pref :: "string list"
  probe_timeout :: int

definition Traceroute_init :: "impl \<Rightarrow> int \<Rightarrow> int \<Rightarrow> int \<Rightarrow> string list option \<Rightarrow> traceroute" where
  "Traceroute_init c timeout hops gu pr =
     \<lparr> cls = c, giveup = gu, max_hops = hops,
       pref = (case pr of None \<Rightarrow> [''icmp'', ''udp'', ''tcp''] | Some p \<Rightarrow> p),
       probe_timeout = timeout \<rparr>"

text \<open>
  \<open>get_traceroute\<close>: the class by platform name, \<open>LinuxTraceroute\<close> for every platform
  that is not listed.
\<close>

definition get_traceroute :: "string \<Rightarrow> int \<Rightarrow> int \<Rightarrow> int \<Rightarrow> traceroute" where
  "get_traceroute system gu timeout hops =
     Traceroute_init
       (if system = ''Darwin'' \<or> system = ''OpenBSD'' then BSDTraceroute else LinuxTraceroute)
       timeout hops gu None"

text \<open>
  The capability sets are Python sets of strings. They are written here as lists without
  repetition, in the order of the source text; \<open>list(capabilities)\<close> enumerates a set in
  an order Python does not fix, so the functions that enumerate one take the enumeration
  as an argument or, as \<open>_get_best\<close>, read it only when the preference list selects nothing.
\<close>

fun nonroot_capabilities :: "impl \<Rightarrow> string list" where
  "nonroot_capabilities LinuxTraceroute = [''udp'']"
| "nonroot_capabilities WindowsTraceroute = [''icmp'']"
| "nonroot_capabilities _ = [''icmp'', ''udp'', ''tcp'', ''gre'']"

fun root_capabilities :: "impl \<Rightarrow> string list" where
  "root_capabilities LinuxTraceroute = [''icmp'', ''udp'', ''tcp'']"
| "root_capabilities WindowsTraceroute = [''icmp'']"
| "root_capabilities _ = [''icmp'', ''udp'', ''tcp'', ''gre'']"

fun ipv6_capabilities :: "impl \<Rightarrow> string list" where
  "ipv6_capabilities WindowsTraceroute = [''icmp'']"
| "ipv6_capabilities _ = [''icmp'', ''udp'']"

text \<open>
  \<open>IS_PRIVILEGED\<close> is computed once when the module is imported, from the effective user
  id and \<open>getcap\<close>; it is an argument here.
\<close>

definition capabilities :: "impl \<Rightarrow> bool \<Rightarrow> bool \<Rightarrow> bool \<Rightarrow> string list" where
  "capabilities c IS_PRIVILEGED ipv6 privileged =
     (let my_capabilities =
            (if privileged \<or> IS_PRIVILEGED then root_capabilities c else nonroot_capabilities c)
      in if ipv6 then filter (\<lambda>p. p \<in> set (ipv6_capabilities c)) my_capabilities
         else my_capabilities)"

text \<open>
  \<open>is_ipv6\<close> asks the \<open>ipaddress\<close> library whether the host parses as an IPv6 address;
  the library is outside the repository and the predicate is an argument.
\<close>

definition capabilities_for_host :: "traceroute \<Rightarrow> bool \<Rightarrow> (string \<Rightarrow> bool) \<Rightarrow> string \<Rightarrow> string list" where
  "capabilities_for_host tr IS_PRIVILEGED is_ipv6 host =
     capabilities (cls tr) IS_PRIVILEGED (is_ipv6 host) IS_PRIVILEGED"

definition get_best :: "traceroute \<Rightarrow> bool \<Rightarrow> bool \<Rightarrow> error + string" where
  "get_best tr IS_PRIVILEGED ipv6 =
     (let caps = capabilities (cls tr) IS_PRIVILEGED ipv6 IS_PRIVILEGED;
          cap_by_pref = filter (\<lambda>proto. proto \<in> set caps) (pref tr) @ caps
      in case cap_by_pref of [] \<Rightarrow> Inl IndexError | proto # _ \<Rightarrow> Inr proto)"

text \<open>Python's \<open>str\<close> of an integer, and \<open>sep.join\<close>.\<close>

fun str_nat :: "nat \<Rightarrow> string" where
  "str_nat n =
     (if n < 10 then [''0123456789'' ! n]
      else str_nat (n div 10) @ [''0123456789'' ! (n mod 10)])"

definition str_int :: "int \<Rightarrow> string" where
  "str_int i = (if i < 0 then CHR ''-'' # str_nat (nat (- i)) else str_nat (nat i))"

fun join :: "string \<Rightarrow> string list \<Rightarrow> string" where
  "join sep [] = []"
| "join sep [x] = x"
| "join sep (x # y # ys) = x @ sep @ join sep (y # ys)"

text \<open>
  The command lines. \<open>if self.probe_timeout\<close> and \<open>if self.max_hops\<close> test the integers
  for being non-zero.
\<close>

definition timeout_and_hops :: "traceroute \<Rightarrow> string list" where
  "timeout_and_hops tr =
     (if probe_timeout tr \<noteq> 0 then [''-w'', str_int (probe_timeout tr)] else []) @
     (if max_hops tr \<noteq> 0 then [''-m'', str_int (max_hops tr)] else [])"

definition ipv6_cmd :: "traceroute \<Rightarrow> string \<Rightarrow> string \<Rightarrow> string list" where
  "ipv6_cmd tr host proto =
     (case cls tr of
        LinuxTraceroute \<Rightarrow>
          (if proto = ''icmp'' then [''traceroute'', ''-6'', ''-I'', ''-n'', ''-q1'', host]
           else if proto = ''tcp'' then [''traceroute'', ''-6'', ''-T'', ''-n'', ''-q1'', host]
           else [''traceroute'', ''-6'', ''-n'', ''-q1'', host])
      | WindowsTraceroute \<Rightarrow> [''tracert'', ''/6'', ''/d'', ''/h'', ''64'', host]
      | _ \<Rightarrow>
          [''traceroute6'', ''-n'', ''-q1''] @ (if proto = ''icmp'' then [''-I''] else []) @
          timeout_and_hops tr @ [host])"

definition ipv4_cmd :: "traceroute \<Rightarrow> string \<Rightarrow> string \<Rightarrow> string list" where
  "ipv4_cmd tr host proto =
     (case cls tr of
        LinuxTraceroute \<Rightarrow>
          (if proto = ''icmp'' then [''traceroute'', ''-4'', ''-I'', ''-n'', ''-q1'', host]
           else if proto = ''tcp'' then [''traceroute'', ''-4'', ''-T'', ''-n'', ''-q1'', host]
           else [''traceroute'', ''-4'', ''-n'', ''-q1'', host])
      | WindowsTraceroute \<Rightarrow> [''tracert'', ''/4'', ''/d'', ''/h'', ''64'', host]
      | _ \<Rightarrow> [''traceroute'', ''-n'', ''-q1'', ''-P'', proto] @ timeout_and_hops tr @ [host])"

text \<open>
  \<open>parse_line\<close>: the second whitespace-separated field of the line, \<open>None\<close> when there is
  none or it is \<open>*\<close>. \<open>str.split()\<close> without argument splits at runs of whitespace and
  yields no empty field, so the \<open>strip()\<close> before it changes nothing. The whitespace of
  Python among the code points below 256 is listed in \<open>is_space\<close>.
\<close>

definition is_space :: "char \<Rightarrow> bool" where
  "is_space c = (of_char c \<in> set [9, 10, 11, 12, 13, 28, 29, 30, 31, 32, 133, 160 :: nat])"

fun split_from :: "string \<Rightarrow> string \<Rightarrow> string list" where
  "split_from cur [] = (if cur = [] then [] else [cur])"
| "split_from cur (c # cs) =
     (if is_space c then (if cur = [] then split_from [] cs else cur # split_from [] cs)
      else split_from (cur @ [c]) cs)"

definition split_ws :: "string \<Rightarrow> string list" where
  "split_ws s = split_from [] s"

definition parse_line :: "string \<Rightarrow> string option" where
  "parse_line line =
     (case split_ws line of
        _ # ip # _ \<Rightarrow> (if ip = ''*'' then None else Some ip)
      | _ \<Rightarrow> None)"

text \<open>
  \<open>Traceroute.parse_output\<close>: the loop over the lines \<open>readline\<close> returns before the end
  of the stream, with the result so far and \<open>starcount\<close>. It stops after \<open>giveup\<close> missing
  hops in a row (and terminates the child, which shows only in the child's exit code).
\<close>

fun parse_lines :: "int \<Rightarrow> hop list \<Rightarrow> int \<Rightarrow> string list \<Rightarrow> hop list" where
  "parse_lines gu result starcount [] = result"
| "parse_lines gu result starcount (line # rest) =
     (let ip = parse_line line;
          starcount' = (if ip = None then starcount + 1 else 0);
          result' = result @ [ip]
      in if starcount' = gu then result' else parse_lines gu result' starcount' rest)"

definition parse_output :: "traceroute \<Rightarrow> string list \<Rightarrow> hop list" where
  "parse_output tr output =
     (case cls tr of
        LinuxTraceroute \<Rightarrow> parse_lines (giveup tr) [] 0 (drop 1 output)
      | _ \<Rightarrow> parse_lines (giveup tr) [] 0 output)"

text \<open>
  The child process as \<open>trace\<close> sees it: the two pipes (\<open>None\<close> when \<open>Popen\<close> made none),
  each as the lines read from it, and the exit code after \<open>wait()\<close>.
\<close>

record child =
  stdout :: "string list option"
  stderr :: "string list option"
  returncode :: int

text \<open>Lines 123-128 of \<open>Traceroute.trace\<close>: the command line for a host and a protocol.\<close>

definition trace_cmd :: "traceroute \<Rightarrow> bool \<Rightarrow> (string \<Rightarrow> bool) \<Rightarrow> string \<Rightarrow> string \<Rightarrow> error + string list" where
  "trace_cmd tr IS_PRIVILEGED is_ipv6 host proto0 =
     (case (if proto0 = ''best'' then get_best tr IS_PRIVILEGED (is_ipv6 host) else Inr proto0) of
        Inl e \<Rightarrow> Inl e
      | Inr proto \<Rightarrow>
          Inr (if is_ipv6 host then ipv6_cmd tr host proto else ipv4_cmd tr host proto))"

text \<open>
  \<open>Traceroute.trace\<close>. \<open>popen\<close> stands for \<open>subprocess.Popen\<close>: the child a command line
  gives.
\<close>

definition trace_host :: "traceroute \<Rightarrow> bool \<Rightarrow> (string \<Rightarrow> bool) \<Rightarrow> (string list \<Rightarrow> child)
                          \<Rightarrow> string \<Rightarrow> string \<Rightarrow> error + hop list" where
  "trace_host tr IS_PRIVILEGED is_ipv6 popen host proto =
     (case trace_cmd tr IS_PRIVILEGED is_ipv6 host proto of
        Inl e \<Rightarrow> Inl e
      | Inr cmd \<Rightarrow>
          (let troute = popen cmd in
           case (stdout troute, stderr troute) of
             (Some out, Some err) \<Rightarrow>
               (let result = parse_output tr out in
                if returncode troute \<notin> set [0, -9, -15]
                then Inl (TracerouteError
                       (''command '' @ [CHR 0x27] @ join '' '' cmd @ [CHR 0x27] @ '' returned '' @
                        str_int (returncode troute) @ '', stderr: '' @ concat err))
                else Inr result)
           | _ \<Rightarrow>
               Inl (TracerouteError
                      ''Error initializing traceroute: unable to pipe stdout or stderr'')))"

section \<open>Protocol cycling (TracerouteTracer in tracer/tracer.py)\<close>

text \<open>
  \<open>TracerouteTracer\<close> adds to \<open>Tracer\<close> the protocol queue (the class attribute \<open>None\<close>
  until the first selection, a deque afterwards), the failure count and the back-off time.
\<close>

record TracerouteTracer = Tracer +
  cycle_protocols :: "string list option"
  failcount :: nat
  backoff_until :: "real option"

definition TracerouteTracer_init :: "string \<Rightarrow> bool \<Rightarrow> string option \<Rightarrow> TracerouteTracer" where
  "TracerouteTracer_init dest only_chg pr =
     \<lparr> self_destination = dest, only_changes = only_chg, history = [], self_proto = pr,
       running = False, self_dports = PortsNone, self_cnames = [],
       cycle_protocols = None, failcount = 0, backoff_until = None \<rparr>"

text \<open>
  \<open>cycle_protocol\<close>. The argument \<open>caps\<close> is the capability set
  \<open>traceroute.capabilities_for_host(self.destination)\<close> as \<open>list(capabilities)\<close>
  enumerates it. The result is the value returned or the exception raised, and the tracer
  with its queue; \<open>popleft\<close> on an empty deque raises \<open>IndexError\<close>.
\<close>

definition cycle_protocol :: "TracerouteTracer \<Rightarrow> string list \<Rightarrow> string list option
                              \<Rightarrow> (error + string) \<times> TracerouteTracer" where
  "cycle_protocol slf caps pref_arg =
     (let pref_list = (case pref_arg of None \<Rightarrow> [''icmp'', ''udp'', ''tcp''] | Some l \<Rightarrow> l);
          queue = (case cycle_protocols slf of
                     None \<Rightarrow> filter (\<lambda>proto. proto \<in> set caps) pref_list @ caps
                   | Some q \<Rightarrow> q)
      in case queue of
           [] \<Rightarrow> (Inl IndexError, slf\<lparr> cycle_protocols := Some [] \<rparr>)
         | proto # rest \<Rightarrow> (Inr proto, slf\<lparr> cycle_protocols := Some (rest @ [proto]) \<rparr>))"

text \<open>The protocols that \<open>n\<close> calls in a row select.\<close>

fun selections :: "nat \<Rightarrow> TracerouteTracer \<Rightarrow> string list \<Rightarrow> string list" where
  "selections 0 slf caps = []"
| "selections (Suc n) slf caps =
     (case cycle_protocol slf caps None of
        (Inr proto, slf') \<Rightarrow> proto # selections n slf' caps
      | (Inl e, slf') \<Rightarrow> [])"

section \<open>Reverse-name store (reverse_query_lookup.py)\<close>

text \<open>
  \<open>resolve_dict\<close> is an \<open>OrderedDict\<close> from IP to CNAME chain: an association list in
  insertion order, the oldest entry first, with no key twice. Assigning to a key that is
  absent appends the entry (\<open>AList.update\<close> does), \<open>del\<close> removes it, and \<open>popitem()\<close>
  with its default \<open>last=True\<close> removes and returns the entry at the end; on an empty
  dictionary it raises \<open>KeyError\<close>.
\<close>

type_synonym resolve_dict = "(string \<times> string list) list"

definition MAX_ITEMS :: int where
  "MAX_ITEMS = 5000"

definition popitem :: "resolve_dict \<Rightarrow> error + resolve_dict" where
  "popitem d = (if d = [] then Inl KeyError else Inr (butlast d))"

text \<open>
  Lines 94-99 of \<open>reader\<close>: what one pair \<open>(ip, names)\<close> parsed from the log does to the
  store.
\<close>

definition reader_step :: "int \<Rightarrow> resolve_dict \<Rightarrow> string \<times> string list \<Rightarrow> error + resolve_dict" where
  "reader_step max_items d item =
     (case item of (ip, names) \<Rightarrow>
        let d1 = (if ip \<in> fst ` set d then AList.delete ip d else d)
        in if int (length d1) \<ge> max_items
           then (case popitem d1 of
                   Inl e \<Rightarrow> Inl e
                 | Inr d2 \<Rightarrow> Inr (AList.update ip names d2))
           else Inr (AList.update ip names d1))"

text \<open>The loop of \<open>reader\<close> over the pairs the parser yields; an exception ends it.\<close>

fun reader :: "int \<Rightarrow> resolve_dict \<Rightarrow> (string \<times> string list) list \<Rightarrow> error + resolve_dict" where
  "reader max_items d [] = Inr d"
| "reader max_items d (item # items) =
     (case reader_step max_items d item of
        Inl e \<Rightarrow> Inl e
      | Inr d' \<Rightarrow> reader max_items d' items)"

definition lookup :: "resolve_dict \<Rightarrow> string \<Rightarrow> string list" where
  "lookup d ip = (case map_of d ip of None \<Rightarrow> [] | Some names \<Rightarrow> names)"

section \<open>ROA validator (util/rpki.py)\<close>

text \<open>
  The values \<open>roa_valid\<close> compares: \<open>asn\<close> is an \<open>int\<close> or a \<open>str\<close> by its annotation, and
  the \<open>asn\<close> and \<open>prefix\<close> members of a VRP of the JSON file are numbers or strings.
  Python's \<open>==\<close> never identifies an \<open>int\<close> with a \<open>str\<close>.
\<close>

datatype pyval = PyInt int | PyStr string

fun str :: "pyval \<Rightarrow> string" where
  "str (PyInt i) = str_int i"
| "str (PyStr s) = s"

text \<open>\<open>not v\<close>: zero and the empty string are falsy.\<close>

fun falsy :: "pyval \<Rightarrow> bool" where
  "falsy (PyInt i) = (i = 0)"
| "falsy (PyStr s) = (s = [])"

text \<open>One entry of \<open>data['roas']\<close>, with the two members the check reads.\<close>

record roa =
  roa_asn :: pyval
  roa_prefix :: pyval

text \<open>
  \<open>ROAChecker.roa_valid\<close>, with \<open>self.data['roas']\<close> as its first argument. The tuple
  \<open>(asn, prefix)\<close> is looked up as it was passed; only the members of the VRPs go through
  \<open>str\<close>.
\<close>

definition roa_valid :: "roa list \<Rightarrow> pyval \<Rightarrow> string \<Rightarrow> bool" where
  "roa_valid roas asn prefix =
     (if falsy asn \<or> asn = PyStr ''*'' then False
      else if prefix = [] \<or> prefix = ''*'' then False
      else
        let valid_prefixes = map (\<lambda>r. (PyStr (str (roa_asn r)), PyStr (str (roa_prefix r)))) roas
        in (asn, PyStr prefix) \<in> set valid_prefixes)"

section \<open>Hop cache (node_info.py)\<close>

text \<open>
  The record \<open>get_info\<close> builds: always the same nine keys, each a string or \<open>None\<close>. A
  dictionary with nine keys is truthy, so \<open>if result\<close> after \<open>hop_cache.get(ip)\<close> asks
  only whether the IP is cached.
\<close>

record info =
  info_asn :: "string option"
  info_hostname :: "string option"
  info_country :: "string option"
  info_cidr :: "string option"
  info_description :: "string option"
  info_domain :: "string option"
  info_dis :: "string option"
  info_roa :: "string option"
  info_ip :: "string option"

text \<open>
  The two module-level dictionaries, as association lists in insertion order:
  \<open>hop_cache\<close> from IP to record, \<open>hop_cache_expire\<close> from expiry time to the IPs stored
  with that expiry. Times are the floats of \<open>time.time()\<close>, compared and stored only.
\<close>

record cache_state =
  hop_cache :: "(string \<times> info) list"
  hop_cache_expire :: "(real \<times> string list) list"

definition empty_cache :: cache_state where
  "empty_cache = \<lparr> hop_cache = [], hop_cache_expire = [] \<rparr>"

text \<open>\<open>d.setdefault(k, []).append(v)\<close> on a dictionary of lists.\<close>

definition setdefault_append :: "'k \<Rightarrow> 'v \<Rightarrow> ('k \<times> 'v list) list \<Rightarrow> ('k \<times> 'v list) list" where
  "setdefault_append k v d =
     (if k \<in> fst ` set d then AList.map_entry k (\<lambda>l. l @ [v]) d else d @ [(k, [v])])"

text \<open>
  Lines 227-234, the expire phase. \<open>list(set(expired_hops))\<close> enumerates the expired
  hops without repetition in some order; the deletions do not depend on it.
\<close>

definition expire :: "real \<Rightarrow> cache_state \<Rightarrow> cache_state" where
  "expire now s =
     (let expired_hops =
            concat (map snd (filter (\<lambda>(exp_time, hops). exp_time < now) (hop_cache_expire s)));
          expired_times =
            filter (\<lambda>exp_time. exp_time < now) (map fst (hop_cache_expire s))
      in \<lparr> hop_cache =
             foldl (\<lambda>c hop. if hop \<in> fst ` set c then AList.delete hop c else c)
               (hop_cache s) (remdups expired_hops),
           hop_cache_expire =
             foldl (\<lambda>d exp_time. AList.delete exp_time d) (hop_cache_expire s) expired_times \<rparr>)"

text \<open>
  \<open>hop_info\<close> runs in two stretches with the \<open>await\<close> of \<open>get_info\<close> between them, and
  other calls may run in between. The first stretch (lines 227-241) reads the clock,
  expires, and looks the IP up: a hit returns the record. The second (lines 248-254), for
  a miss, gets the record \<open>get_info\<close> produced, and caches it under the expiry
  \<open>time.time() + cache_ttl\<close> unless its \<open>asn\<close> is \<open>*\<close> or \<open>NA\<close>.
\<close>

definition hop_info_begin :: "real \<Rightarrow> string \<Rightarrow> cache_state \<Rightarrow> info option \<times> cache_state" where
  "hop_info_begin now ip s = (let s' = expire now s in (map_of (hop_cache s') ip, s'))"

definition hop_info_finish :: "real \<Rightarrow> int \<Rightarrow> string \<Rightarrow> info \<Rightarrow> cache_state \<Rightarrow> cache_state" where
  "hop_info_finish now cache_ttl ip result s =
     (if info_asn result \<noteq> Some ''*'' \<and> info_asn result \<noteq> Some ''NA''
      then \<lparr> hop_cache = AList.update ip result (hop_cache s),
             hop_cache_expire =
               setdefault_append (now + real_of_int cache_ttl) ip (hop_cache_expire s) \<rparr>
      else s)"

text \<open>The stretches of all calls, in the order the event loop ran them.\<close>

datatype cache_event = Begin real string | Finish real int string info

fun cache_step :: "cache_state \<Rightarrow> cache_event \<Rightarrow> cache_state" where
  "cache_step s (Begin now ip) = snd (hop_info_begin now ip s)"
| "cache_step s (Finish now cache_ttl ip result) = hop_info_finish now cache_ttl ip result s"

definition run_cache :: "cache_event list \<Rightarrow> cache_state" where
  "run_cache evs = foldl cache_step empty_cache evs"

text \<open>Every cached IP is listed under some expiry time.\<close>

definition indexed :: "cache_state \<Rightarrow> bool" where
  "indexed s =
     (\<forall>ip \<in> fst ` set (hop_cache s). \<exists>p \<in> set (hop_cache_expire s). ip \<in> set (snd p))"

text \<open>A record as \<open>get_info\<close> builds it for 8.8.8.8, for the examples.\<close>

abbreviation google_info :: info where
  "google_info \<equiv>
     \<lparr> info_asn = Some ''15169'', info_hostname = Some ''dns.google'', info_country = Some ''US'',
       info_cidr = Some ''8.8.8.0/24'', info_description = Some ''GOOGLE, US'',
       info_domain = Some ''dns.google'', info_dis = None, info_roa = Some ''valid'',
       info_ip = Some ''8.8.8.8'' \<rparr>"

section \<open>Supervisor tick (path_traceroute.py)\<close>

text \<open>
  What \<open>active_hosts_func\<close> returns: a mapping from address to the tuple of its ports
  (both samplers return one), or any other iterable of addresses, for which the
  \<open>isinstance(..., Mapping)\<close> tests fail. \<open>entries\<close> lists the addresses in iteration
  order, each with \<open>_active_remote_hosts[addr]\<close> when there is a mapping to index.
\<close>

datatype snapshot = Mapping "(string \<times> string list) list" | Hosts "string list"

fun entries :: "snapshot \<Rightarrow> (string \<times> string list option) list" where
  "entries (Mapping m) = map (\<lambda>(addr, ps). (addr, Some ps)) m"
| "entries (Hosts l) = map (\<lambda>addr. (addr, None)) l"

text \<open>
  The state of the first \<open>for\<close> loop of a tick (lines 59-74): the list \<open>active_tracers\<close>
  and the local variable \<open>tracer\<close>. The variable is \<open>None\<close> or refers to a tracer object;
  every object it is bound to in that loop was appended to \<open>active_tracers\<close> just before,
  and the loop removes nothing, so the reference is the object's position in the list.
  The tracers' own tasks run at the loop's suspension point and write their histories and
  failure fields only; they are left out here.
\<close>

record tick_state =
  active_tracers :: "TracerouteTracer list"
  tracer_var :: "nat option"

text \<open>
  One address of the snapshot. \<open>Tracer.__init__\<close> raises \<open>ValueError\<close> for an empty
  destination. \<open>tracer.start()\<close> creates the task that sets \<open>running\<close> when it is first
  scheduled, at the \<open>sleep\<close> that follows.
\<close>

definition tick_addr :: "string \<Rightarrow> resolve_dict \<Rightarrow> string option \<Rightarrow> string list \<Rightarrow> tick_state
                         \<Rightarrow> string \<times> string list option \<Rightarrow> error + tick_state" where
  "tick_addr local_ip rd traceproto active_destinations st entry =
     (case entry of (addr, ports) \<Rightarrow>
        if addr = local_ip then Inr st
        else if addr \<in> set active_destinations then
          (case (ports, tracer_var st) of
             (Some ps, Some i) \<Rightarrow>
               Inr (st\<lparr> active_tracers :=
                      (active_tracers st)[i := (active_tracers st ! i)\<lparr> self_dports := PortsTuple ps \<rparr>] \<rparr>)
           | _ \<Rightarrow> Inr st)
        else if addr = [] then Inl ValueError
        else
          let t0 = TracerouteTracer_init addr True traceproto;
              t1 = t0\<lparr> self_cnames := lookup rd addr \<rparr>;
              t2 = (case ports of Some ps \<Rightarrow> t1\<lparr> self_dports := PortsTuple ps \<rparr> | None \<Rightarrow> t1);
              t3 = t2\<lparr> running := True \<rparr>
          in Inr \<lparr> active_tracers = active_tracers st @ [t3],
                   tracer_var = Some (length (active_tracers st)) \<rparr>)"

fun tick_addrs :: "string \<Rightarrow> resolve_dict \<Rightarrow> string option \<Rightarrow> string list \<Rightarrow> tick_state
                   \<Rightarrow> (string \<times> string list option) list \<Rightarrow> error + tick_state" where
  "tick_addrs local_ip rd traceproto dests st [] = Inr st"
| "tick_addrs local_ip rd traceproto dests st (entry # rest) =
     (case tick_addr local_ip rd traceproto dests st entry of
        Inl e \<Rightarrow> Inl e
      | Inr st' \<Rightarrow> tick_addrs local_ip rd traceproto dests st' rest)"

text \<open>
  Lines 57-74 of \<open>main_loop\<close>: \<open>active_destinations\<close> is computed once, \<open>tracer\<close> starts as
  \<open>None\<close>, and the snapshot is walked. The rest of the tick removes tracers and hands
  the lists to the publisher; it assigns no \<open>dports\<close>.
\<close>

definition tick_start_and_update :: "string \<Rightarrow> resolve_dict \<Rightarrow> string option \<Rightarrow> snapshot
                                     \<Rightarrow> TracerouteTracer list \<Rightarrow> error + TracerouteTracer list" where
  "tick_start_and_update local_ip rd traceproto snap active =
     (case tick_addrs local_ip rd traceproto (map self_destination active)
             \<lparr> active_tracers = active, tracer_var = None \<rparr> (entries snap) of
        Inl e \<Rightarrow> Inl e
      | Inr st \<Rightarrow> Inr (active_tracers st))"

text \<open>
  What the loop keeps of the list \<open>a0\<close> it started with: the tracers that were running
  stay at the front as they were, and \<open>tracer\<close> refers to none of them.
\<close>

definition tick_inv :: "TracerouteTracer list \<Rightarrow> tick_state \<Rightarrow> bool" where
  "tick_inv a0 st =
     (take (length a0) (active_tracers st) = a0 \<and> length a0 \<le> length (active_tracers st)
      \<and> (case tracer_var st of None \<Rightarrow> True | Some i \<Rightarrow> length a0 \<le> i))"

section \<open>Publisher (websocket_server.py)\<close>

text \<open>
  \<open>processed_traces_by_destination\<close>, the map of one connection: from destination to the
  list of the keys \<open>(start, destination)\<close> already sent. \<open>all_processed_traces\<close> chains the
  lists of all destinations.
\<close>

type_synonym trace_key = "real \<times> string"

type_synonym processed = "(string \<times> trace_key list) list"

definition all_processed_traces :: "processed \<Rightarrow> trace_key list" where
  "all_processed_traces d = concat (map snd d)"

text \<open>
  What goes out on the socket: the text \<open>clear_cache\<close>, or a trace with its \<open>new\<close> flag.
  \<open>send_trace\<close> replaces the hops by their enrichment records before it serialises; that
  is \<open>hop_info\<close>'s part and is left out of the frame.
\<close>

datatype frame = ClearCache | TraceFrame Trace bool

text \<open>
  The first loop of \<open>send_traces\<close> (lines 79-87), over the histories of the active
  tracers as they were chained before the loop. \<open>host\<close> is the second slot of the
  namedtuple, its \<open>destination\<close>.
\<close>

fun publish_active :: "processed \<Rightarrow> frame list \<Rightarrow> Trace list \<Rightarrow> processed \<times> frame list" where
  "publish_active d out [] = (d, out)"
| "publish_active d out (trace_entry # rest) =
     (let host = destination trace_entry;
          trace_key = (start trace_entry, destination trace_entry)
      in if trace_key \<in> set (all_processed_traces d) then publish_active d out rest
         else publish_active (setdefault_append host trace_key d)
                (out @ [TraceFrame trace_entry True]) rest)"

text \<open>
  The second loop (lines 89-93), over the removed tracers. \<open>tracer.history[-1]\<close> raises
  \<open>IndexError\<close> on an empty history.
\<close>

fun publish_removed :: "processed \<Rightarrow> frame list \<Rightarrow> TracerouteTracer list
                        \<Rightarrow> error + processed \<times> frame list" where
  "publish_removed d out [] = Inr (d, out)"
| "publish_removed d out (t # ts) =
     (if self_destination t \<in> fst ` set d
      then (if history t = [] then Inl IndexError
            else publish_removed (AList.delete (self_destination t) d)
                   (out @ [TraceFrame (List.last (history t)) False]) ts)
      else publish_removed d out ts)"

definition send_traces :: "processed \<Rightarrow> frame list \<Rightarrow> TracerouteTracer list \<Rightarrow> TracerouteTracer list
                            \<Rightarrow> error + processed \<times> frame list" where
  "send_traces d out active removed =
     (case publish_active d out (concat (map history active)) of
        (d1, out1) \<Rightarrow> publish_removed d1 out1 removed)"

text \<open>
  \<open>websocket_handler\<close>: \<open>clear_cache\<close>, then \<open>send_traces\<close> once a second with the tracer
  lists the supervisor posted last. The argument lists what the two lists were at each
  round. An exception ends the handler and with it the map.
\<close>

fun handler_rounds :: "processed \<Rightarrow> frame list \<Rightarrow> (TracerouteTracer list \<times> TracerouteTracer list) list
                       \<Rightarrow> error + processed \<times> frame list" where
  "handler_rounds d out [] = Inr (d, out)"
| "handler_rounds d out ((active, removed) # rounds) =
     (case send_traces d out active removed of
        Inl e \<Rightarrow> Inl e
      | Inr (d', out') \<Rightarrow> handler_rounds d' out' rounds)"

definition websocket_handler :: "(TracerouteTracer list \<times> TracerouteTracer list) list
                                 \<Rightarrow> error + processed \<times> frame list" where
  "websocket_handler rounds = handler_rounds [] [ClearCache] rounds"

text \<open>
  The invariant of the map: no destination twice, and every key stored under a
  destination names that destination.
\<close>

definition keyed :: "processed \<Rightarrow> bool" where
  "keyed d = (distinct (map fst d) \<and> (\<forall>p \<in> set d. \<forall>k \<in> set (snd p). snd k = fst p))"

text \<open>The list of one destination, empty when the destination is absent.\<close>

definition processed_for :: "processed \<Rightarrow> string \<Rightarrow> trace_key list" where
  "processed_for d dst = (case map_of d dst of None \<Rightarrow> [] | Some l \<Rightarrow> l)"

text \<open>A record as the loop appends it, and a tracer with a history, for the examples.\<close>

abbreviation trace_at :: "real \<Rightarrow> string \<Rightarrow> Trace" where
  "trace_at s dst \<equiv>
     \<lparr> start = s, destination = dst, change = True, duration = 1, trace = [Some dst],
       traceback = TracebackNone, dports = PortsTuple [''443''], cnames = CnamesInt 2 \<rparr>"

abbreviation tracer_with :: "string \<Rightarrow> Trace list \<Rightarrow> TracerouteTracer" where
  "tracer_with dst h \<equiv> (TracerouteTracer_init dst True None)\<lparr> history := h \<rparr>"

section \<open>Merging a new trace into the previous accepted one\<close>

lemma merged_trace_nth:
  assumes "length N = length P" and "i < length N"
  shows "merged_trace (Some P) N ! i = (if N ! i \<noteq> None then N ! i else P ! i)"
  using assms by (simp add: merged_trace_def)

lemma merged_trace_length: "length (merged_trace l tr) = length tr"
  by (simp add: merged_trace_def split: option.splits)

text \<open>
  C2. Let \<open>P\<close> be the previous accepted trace (the loop's \<open>last\<close>) and \<open>N\<close> a new
  trace of the same length that passes the three filters. The trace \<open>M\<close> the iteration
  keeps as the new \<open>last\<close>, and stores in the record it appends (if it appends one),
  has \<open>M[i] = N[i]\<close> where \<open>N[i]\<close> is not missing and \<open>M[i] = P[i]\<close> where it is.
\<close>

theorem merge_law:
  assumes "last_tr st = Some P" and "length N = length P"
    and "any_hops N" and "length N \<noteq> max_ttl - 1" and "List.last N \<noteq> None"
    and "i < length N"
  shows "last_tr (loop_body st s e N) = Some (merged_trace (Some P) N)
           \<and> merged_trace (Some P) N ! i = (if N ! i \<noteq> None then N ! i else P ! i)
           \<and> (history (self (loop_body st s e N)) = history (self st)
                \<or> (\<exists>T. history (self (loop_body st s e N)) = history (self st) @ [T]
                       \<and> trace T = merged_trace (Some P) N))"
proof -
  let ?M = "merged_trace (Some P) N"
  let ?chg = "change_flag (Some P) (dports_last st) ?M (self_dports (self st))"
  have nth: "?M ! i = (if N ! i \<noteq> None then N ! i else P ! i)"
    using assms(2,6) by (rule merged_trace_nth)
  have keep: "\<not> ?chg \<Longrightarrow> P = ?M"
    by (simp add: change_flag_def split: if_splits)
  have lst: "last_tr (loop_body st s e N) = Some ?M"
    using assms(1,3,4,5) keep by (auto simp: loop_body_def Let_def)
  have hist: "history (self (loop_body st s e N)) = history (self st)
                \<or> (\<exists>T. history (self (loop_body st s e N)) = history (self st) @ [T]
                       \<and> trace T = ?M)"
    using assms(1,3,4,5) by (simp add: loop_body_def Let_def)
  from lst nth hist show ?thesis by blast
qed

text \<open>
  The packet-loss scenario: previous \<open>a, b, c, 8.8.8.8\<close>, new \<open>a, None, c, 8.8.8.8\<close>;
  position 1 of the merged trace is the old hop \<open>b\<close>.
\<close>

theorem merge_law_witness:
  "last_tr (loop_body
          \<lparr> self = (Tracer_init ''8.8.8.8'' True None)\<lparr> self_dports := PortsTuple [''443''] \<rparr>,
            last_tr = Some [Some ''a'', Some ''b'', Some ''c'', Some ''8.8.8.8''],
            dports_last = PortsTuple [''443''] \<rparr>
          10 12 [Some ''a'', None, Some ''c'', Some ''8.8.8.8''])
     = Some [Some ''a'', Some ''b'', Some ''c'', Some ''8.8.8.8'']
   \<and> merged_trace (Some [Some ''a'', Some ''b'', Some ''c'', Some ''8.8.8.8''])
         [Some ''a'', None, Some ''c'', Some ''8.8.8.8''] ! 1 = Some ''b''"
  using merge_law [of
      "\<lparr> self = (Tracer_init ''8.8.8.8'' True None)\<lparr> self_dports := PortsTuple [''443''] \<rparr>,
         last_tr = Some [Some ''a'', Some ''b'', Some ''c'', Some ''8.8.8.8''],
         dports_last = PortsTuple [''443''] \<rparr>"
      "[Some ''a'', Some ''b'', Some ''c'', Some ''8.8.8.8'']"
      "[Some ''a'', None, Some ''c'', Some ''8.8.8.8'']" 1 10 12]
  by (simp add: any_hops_def truthy_hop_def max_ttl_def merged_trace_def)

section \<open>Change detection\<close>

lemma change_consistent_snoc:
  "change_consistent (h @ [b]) =
     (change_consistent h \<and>
      (h = [] \<or> change b = (dports (List.last h) = PortsNone \<or> trace b \<noteq> trace (List.last h)
                               \<or> dports b \<noteq> dports (List.last h))))"
  by (induction h rule: change_consistent.induct) auto

lemma change_consistent_nth:
  "change_consistent h \<Longrightarrow> Suc i < length h \<Longrightarrow>
     change (h ! Suc i) = (dports (h ! i) = PortsNone \<or> trace (h ! Suc i) \<noteq> trace (h ! i)
                            \<or> dports (h ! Suc i) \<noteq> dports (h ! i))"
proof (induction h arbitrary: i rule: change_consistent.induct)
  case (1 a b rest)
  then show ?case by (cases i) auto
qed auto

lemma any_hops_nonempty: "any_hops tr \<Longrightarrow> tr \<noteq> []"
  by (auto simp: any_hops_def)

lemma merged_trace_nonempty: "tr \<noteq> [] \<Longrightarrow> merged_trace l tr \<noteq> []"
  using merged_trace_length [of l tr] by (metis length_0_conv)

lemma loop_inv_start: "history t = [] \<Longrightarrow> loop_inv (loop_start t)"
  by (simp add: loop_inv_def loop_start_def)

lemma loop_body_skip:
  "\<not> (any_hops tr0 \<and> length tr0 \<noteq> max_ttl - 1 \<and> List.last tr0 \<noteq> None)
     \<Longrightarrow> loop_body st s e tr0 = st"
  by (auto simp: loop_body_def)

lemma loop_body_accept:
  assumes "any_hops tr0" and "length tr0 \<noteq> max_ttl - 1" and "List.last tr0 \<noteq> None"
  shows "loop_body st s e tr0 =
     \<lparr> self = (self st)\<lparr> history :=
          (if \<not> only_changes (self st)
               \<or> change_flag (last_tr st) (dports_last st) (merged_trace (last_tr st) tr0)
                    (self_dports (self st))
           then history (self st) @
                [\<lparr> start = s, destination = self_destination (self st),
                   change = change_flag (last_tr st) (dports_last st)
                              (merged_trace (last_tr st) tr0) (self_dports (self st)),
                   duration = e - s, trace = merged_trace (last_tr st) tr0,
                   traceback = TracebackNone, dports = self_dports (self st),
                   cnames = CnamesInt 2 \<rparr>]
           else history (self st)) \<rparr>,
       last_tr = (if change_flag (last_tr st) (dports_last st) (merged_trace (last_tr st) tr0)
                       (self_dports (self st))
                  then Some (merged_trace (last_tr st) tr0) else last_tr st),
       dports_last = self_dports (self st) \<rparr>"
proof -
  from assms(3) have "(List.last tr0 = None) = False" by simp
  with assms(1,2) show ?thesis
    unfolding loop_body_def Let_def by (simp only: if_False not_True_eq_False simp_thms)
qed

lemma loop_inv_body:
  assumes inv: "loop_inv st"
  shows "loop_inv (loop_body st s e tr0)"
proof (cases "any_hops tr0 \<and> length tr0 \<noteq> max_ttl - 1 \<and> List.last tr0 \<noteq> None")
  case False
  then have "loop_body st s e tr0 = st" by (rule loop_body_skip)
  with inv show ?thesis by simp
next
  case True
  let ?h = "history (self st)"
  let ?tr = "merged_trace (last_tr st) tr0"
  let ?d = "self_dports (self st)"
  let ?chg = "change_flag (last_tr st) (dports_last st) ?tr ?d"
  from True have ne: "?tr \<noteq> []"
    by (simp add: any_hops_nonempty merged_trace_nonempty)
  have body: "loop_body st s e tr0 = 
     \<lparr> self = (self st)\<lparr> history :=
          (if \<not> only_changes (self st) \<or> ?chg
           then ?h @ [\<lparr> start = s, destination = self_destination (self st),
                   change = ?chg, duration = e - s, trace = ?tr,
                   traceback = TracebackNone, dports = ?d, cnames = CnamesInt 2 \<rparr>]
           else ?h) \<rparr>,
       last_tr = (if ?chg then Some ?tr else last_tr st), dports_last = ?d \<rparr>"
    using True by (simp add: loop_body_accept)
  show ?thesis
  proof (cases "?h = []")
    case True
    with inv have "last_tr st = None" by (simp add: loop_inv_def Let_def)
    then have chg: "?chg" by (simp add: change_flag_def)
    show ?thesis
      unfolding body using True chg ne by (simp add: loop_inv_def Let_def)
  next
    case False
    with inv have cc: "change_consistent ?h" and nonempty: "\<forall>T \<in> set ?h. trace T \<noteq> []"
      and first: "change (hd ?h)" and l: "last_tr st = Some (trace (List.last ?h))"
      and dl: "dports_last st = dports (List.last ?h)"
      by (simp_all add: loop_inv_def Let_def)
    have chg_eq: "?chg = (dports (List.last ?h) = PortsNone \<or> ?tr \<noteq> trace (List.last ?h)
                            \<or> ?d \<noteq> dports (List.last ?h))"
      unfolding l dl by (auto simp: change_flag_def)
    show ?thesis
    proof (cases "\<not> only_changes (self st) \<or> ?chg")
      case True
      then show ?thesis
        unfolding body using False cc nonempty first ne chg_eq l dl
        by (simp add: loop_inv_def Let_def change_consistent_snoc del: change_consistent.simps)
    next
      case nochg: False
      then show ?thesis
        unfolding body using False cc nonempty first chg_eq l dl
        by (simp add: loop_inv_def Let_def del: change_consistent.simps)
    qed
  qed
qed

lemma loop_inv_step: "loop_inv st \<Longrightarrow> loop_inv (step st ev)"
  by (cases ev) (simp_all add: loop_inv_body, simp add: loop_inv_def Let_def)

lemma loop_inv_foldl: "loop_inv st \<Longrightarrow> loop_inv (foldl step st evs)"
  by (induction evs arbitrary: st) (simp_all add: loop_inv_step)

lemma loop_inv_run: "history t = [] \<Longrightarrow> loop_inv (run t ti evs)"
  by (simp add: run_def loop_inv_foldl loop_inv_start)

lemma loop_inv_exit:
  assumes "loop_inv st"
  shows "change_consistent (history (self (loop_exit now st)))"
    and "change (hd (history (self (loop_exit now st))))"
proof -
  let ?h = "history (self st)"
  from assms have cc: "change_consistent ?h" and ne: "\<forall>T \<in> set ?h. trace T \<noteq> []"
    and first: "?h \<noteq> [] \<Longrightarrow> change (hd ?h)"
    by (simp_all add: loop_inv_def Let_def)
  have lastne: "?h \<noteq> [] \<Longrightarrow> trace (List.last ?h) \<noteq> []"
    using ne last_in_set by blast
  show "change_consistent (history (self (loop_exit now st)))"
    using cc lastne by (auto simp: loop_exit_def change_consistent_snoc)
  show "change (hd (history (self (loop_exit now st))))"
    using first by (cases ?h) (simp_all add: loop_exit_def)
qed

text \<open>
  C1, as the code has it. Take a tracer that starts with an empty history, any sequence of
  port assignments and loop iterations, and the sentinel appended when the loop is left.
  The first record of the history has \<open>change = True\<close>. For two neighbours of the history,
  the later one has \<open>change = True\<close> exactly when the earlier one's \<open>dports\<close> is \<open>None\<close>
  (no port set was ever assigned), or its hops differ from the earlier one's, or its
  \<open>dports\<close> differ from the earlier one's. An accepted trace that is not appended
  (\<open>only_changes\<close>, no change) has the hops and ports of the newest record, so the newest
  record stands for the previous accepted trace.
\<close>

theorem change_detection:
  assumes "history t = []" and "h = history (self (loop_exit now (run t ti evs)))"
  shows "change (hd h) \<and>
         (\<forall>i. Suc i < length h \<longrightarrow>
            change (h ! Suc i) = (dports (h ! i) = PortsNone
                                   \<or> trace (h ! Suc i) \<noteq> trace (h ! i)
                                   \<or> dports (h ! Suc i) \<noteq> dports (h ! i)))"
proof -
  from assms(1) have inv: "loop_inv (run t ti evs)"
    by (rule loop_inv_run)
  have "change (hd h)"
    unfolding assms(2) using inv by (rule loop_inv_exit(2))
  moreover have "change_consistent h"
    unfolding assms(2) using inv by (rule loop_inv_exit(1))
  ultimately show ?thesis
    by (simp add: change_consistent_nth)
qed

text \<open>
  A tracer that records every accepted trace, with ports \<open>443\<close>: the same path twice, then
  another path. The second record is not flagged, the third and the sentinel are.
\<close>

theorem change_detection_witness:
  "history (Tracer_init ''8.8.8.8'' False None) = [] \<and>
   map change (history (self (loop_exit 20
       (run (Tracer_init ''8.8.8.8'' False None) 5
          [SetDports (PortsTuple [''443'']),
           Iteration 0 1 [Some ''10.0.0.1'', Some ''8.8.8.8''],
           Iteration 5 6 [Some ''10.0.0.1'', Some ''8.8.8.8''],
           Iteration 10 11 [Some ''10.0.0.9'', Some ''8.8.8.8'']]))))
     = [True, False, True, True]"
  using change_detection [of "Tracer_init ''8.8.8.8'' False None" _ 20 5
          "[SetDports (PortsTuple [''443'']),
            Iteration 0 1 [Some ''10.0.0.1'', Some ''8.8.8.8''],
            Iteration 5 6 [Some ''10.0.0.1'', Some ''8.8.8.8''],
            Iteration 10 11 [Some ''10.0.0.9'', Some ''8.8.8.8'']]", OF _ refl]
  by (simp add: Tracer_init_def run_def loop_start_def loop_body_def loop_exit_def Let_def
        change_flag_def merged_trace_def any_hops_def truthy_hop_def max_ttl_def)

text \<open>
  C1 as stated fails for a tracer whose \<open>dports\<close> was never assigned (the constructor's
  \<open>None\<close>, as in \<open>main()\<close> of tracer.py): the guard \<open>dports_last is None\<close> flags every
  accepted trace, also one with the hops and the ports of the one before.
\<close>

theorem change_detection_counterexample:
  "map (\<lambda>T. (change T, trace T, dports T))
     (history (self (run (Tracer_init ''8.8.8.8'' True None) 5
        [Iteration 0 1 [Some ''10.0.0.1'', Some ''8.8.8.8''],
         Iteration 5 6 [Some ''10.0.0.1'', Some ''8.8.8.8'']])))
   = [(True, [Some ''10.0.0.1'', Some ''8.8.8.8''], PortsNone),
      (True, [Some ''10.0.0.1'', Some ''8.8.8.8''], PortsNone)]"
  by (simp add: Tracer_init_def run_def loop_start_def loop_body_def Let_def
        change_flag_def merged_trace_def any_hops_def truthy_hop_def max_ttl_def)

section \<open>The cnames slot of the records\<close>

lemma loop_body_cnames:
  "list_all (\<lambda>T. cnames T = CnamesInt 2) (history (self st))
     \<Longrightarrow> list_all (\<lambda>T. cnames T = CnamesInt 2) (history (self (loop_body st s e tr)))"
  by (simp add: loop_body_def Let_def)

lemma loop_exit_cnames:
  "cnames (List.last (history (self (loop_exit now st)))) = CnamesList (self_cnames (self st))"
  by (simp add: loop_exit_def)

text \<open>
  C3 fails on the code. The supervisor installs the CNAME chain \<open>dns.google\<close> in the
  tracer; the record the loop appends for an accepted trace carries the integer \<open>2\<close> in
  its \<open>cnames\<close> slot, and only the sentinel carries the tracer's chain.
\<close>

theorem loop_record_cnames_is_literal:
  "map cnames (history (self (loop_exit 20
       (run ((Tracer_init ''8.8.8.8'' True None)\<lparr> self_cnames := [''dns.google''] \<rparr>) 5
          [SetDports (PortsTuple [''443'']),
           Iteration 0 1 [Some ''10.0.0.1'', Some ''8.8.8.8'']]))))
     = [CnamesInt 2, CnamesList [''dns.google'']]"
  by (simp add: Tracer_init_def run_def loop_start_def loop_body_def loop_exit_def Let_def
        change_flag_def merged_trace_def any_hops_def truthy_hop_def max_ttl_def)

section \<open>Exit codes of the traceroute child\<close>

lemma capabilities_nonempty: "capabilities c p v6 p' \<noteq> []"
  by (cases c; cases v6) (simp_all add: capabilities_def Let_def)

lemma get_best_total: "\<exists>proto. get_best tr p v6 = Inr proto"
  using capabilities_nonempty [of "cls tr" p v6 p]
  by (simp add: get_best_def Let_def split: list.splits)

lemma trace_cmd_total: "\<exists>cmd. trace_cmd tr p is6 host proto = Inr cmd"
  using get_best_total [of tr p "is6 host"]
  by (auto simp: trace_cmd_def)

text \<open>
  C9. Let \<open>cmd\<close> be the command line \<open>trace\<close> builds (it always builds one, by
  \<open>trace_cmd_total\<close>) and let the child have both pipes, as \<open>Popen\<close> with two \<open>PIPE\<close>
  arguments gives. With exit code 0, -9 or -15 \<open>trace\<close> returns the parsed hop list. With
  any other exit code it raises \<open>TracerouteError\<close>, and the message is the command line
  joined by blanks, the exit code and the lines of the child's stderr.
\<close>

theorem trace_exit_codes:
  assumes "trace_cmd tr p is6 host proto = Inr cmd"
    and "stdout (popen cmd) = Some out" and "stderr (popen cmd) = Some err"
  shows "trace_host tr p is6 popen host proto =
     (if returncode (popen cmd) = 0 \<or> returncode (popen cmd) = - 9
           \<or> returncode (popen cmd) = - 15
      then Inr (parse_output tr out)
      else Inl (TracerouteError
             (''command '' @ [CHR 0x27] @ join '' '' cmd @ [CHR 0x27] @ '' returned '' @
              str_int (returncode (popen cmd)) @ '', stderr: '' @ concat err)))"
  using assms by (simp add: trace_host_def Let_def)

text \<open>
  A BSD trace to 8.8.8.8 by UDP: killed by SIGTERM after two lines it returns the two hops;
  with exit code 1 it raises, naming the command and the child's complaint.
\<close>

theorem trace_exit_codes_witness:
  "trace_cmd (get_traceroute ''Darwin'' 5 3 64) False (\<lambda>h. False) ''8.8.8.8'' ''udp''
     = Inr [''traceroute'', ''-n'', ''-q1'', ''-P'', ''udp'', ''-w'', ''3'', ''-m'', ''64'',
            ''8.8.8.8'']
   \<and> trace_host (get_traceroute ''Darwin'' 5 3 64) False (\<lambda>h. False)
       (\<lambda>c. \<lparr> stdout = Some ['' 1  10.0.0.1  0.5 ms'', '' 2  *''], stderr = Some [],
               returncode = - 15 \<rparr>)
       ''8.8.8.8'' ''udp''
     = Inr [Some ''10.0.0.1'', None]
   \<and> trace_host (get_traceroute ''Darwin'' 5 3 64) False (\<lambda>h. False)
       (\<lambda>c. \<lparr> stdout = Some [], stderr = Some [''no route''], returncode = 1 \<rparr>)
       ''8.8.8.8'' ''udp''
     = Inl (TracerouteError
         (''command '' @ [CHR 0x27] @ ''traceroute -n -q1 -P udp -w 3 -m 64 8.8.8.8'' @
          [CHR 0x27] @ '' returned 1, stderr: no route''))"
proof -
  let ?tr = "get_traceroute ''Darwin'' 5 3 64"
  let ?cmd = "[''traceroute'', ''-n'', ''-q1'', ''-P'', ''udp'', ''-w'', ''3'', ''-m'', ''64'',
               ''8.8.8.8'']"
  have c: "trace_cmd ?tr False (\<lambda>h. False) ''8.8.8.8'' ''udp'' = Inr ?cmd"
    by (simp add: trace_cmd_def get_traceroute_def Traceroute_init_def ipv4_cmd_def
          timeout_and_hops_def str_int_def)
  have p: "parse_output ?tr ['' 1  10.0.0.1  0.5 ms'', '' 2  *''] = [Some ''10.0.0.1'', None]"
    by (simp add: parse_output_def get_traceroute_def Traceroute_init_def parse_line_def
          split_ws_def is_space_def)
  show ?thesis
    using c p
      trace_exit_codes [OF c, of
        "\<lambda>c. \<lparr> stdout = Some ['' 1  10.0.0.1  0.5 ms'', '' 2  *''], stderr = Some [],
                returncode = - 15 \<rparr>" "['' 1  10.0.0.1  0.5 ms'', '' 2  *'']" "[]"]
      trace_exit_codes [OF c, of
        "\<lambda>c. \<lparr> stdout = Some [], stderr = Some [''no route''], returncode = 1 \<rparr>"
        "[]" "[''no route'']"]
    by (simp add: str_int_def)
qed

section \<open>The protocol queue\<close>

lemma cycle_protocol_first:
  assumes "cycle_protocols slf = None" and "caps \<noteq> []"
  shows "\<exists>proto. cycle_protocol slf caps None =
           (Inr proto, slf\<lparr> cycle_protocols :=
              Some (rotate1 (filter (\<lambda>q. q \<in> set caps) [''icmp'', ''udp'', ''tcp''] @ caps)) \<rparr>)"
proof -
  let ?queue = "filter (\<lambda>q. q \<in> set caps) [''icmp'', ''udp'', ''tcp''] @ caps"
  from assms(2) obtain proto rest where q: "?queue = proto # rest"
    by (cases ?queue) auto
  then have "rotate1 ?queue = rest @ [proto]"
    by (simp only: rotate1.simps)
  with q assms(1) show ?thesis
    by (simp add: cycle_protocol_def Let_def del: filter.simps)
qed

lemma cycle_protocol_rotates:
  "cycle_protocols slf = Some (proto # rest) \<Longrightarrow>
     cycle_protocol slf caps pr = (Inr proto, slf\<lparr> cycle_protocols := Some (rest @ [proto]) \<rparr>)"
  by (simp add: cycle_protocol_def Let_def)

lemma count_list_distinct: "distinct xs \<Longrightarrow> x \<in> set xs \<Longrightarrow> count_list xs x = 1"
  by (induction xs) auto

lemma initial_queue_counts:
  assumes "distinct caps" and "p \<in> set caps"
  shows "count_list (filter (\<lambda>q. q \<in> set caps) [''icmp'', ''udp'', ''tcp''] @ caps) p =
           (if p \<in> set [''icmp'', ''udp'', ''tcp''] then 2 else 1)"
proof -
  from assms have "count_list caps p = 1"
    by (simp add: count_list_distinct)
  moreover have "count_list (filter (\<lambda>q. q \<in> set caps) [''icmp'', ''udp'', ''tcp'']) p =
                   (if p \<in> set [''icmp'', ''udp'', ''tcp''] then 1 else 0)"
    using assms(2) by auto
  ultimately show ?thesis by simp
qed

text \<open>
  C8 fails on the code. On macOS the capability set of an IPv4 destination is
  \<open>icmp, udp, tcp, gre\<close>. The first selection fills the queue with the preferred
  protocols and then with the whole set again, seven entries for four capabilities, and
  seven selections give \<open>gre\<close> once and each other protocol twice. By
  \<open>initial_queue_counts\<close> this is so for every enumeration of the set.
\<close>

theorem cycle_protocol_repeats_preferred:
  "capabilities_for_host (get_traceroute ''Darwin'' 5 3 64) False (\<lambda>h. False) ''8.8.8.8''
     = [''icmp'', ''udp'', ''tcp'', ''gre'']
   \<and> cycle_protocols (snd (cycle_protocol (TracerouteTracer_init ''8.8.8.8'' True None)
         [''icmp'', ''udp'', ''tcp'', ''gre''] None))
     = Some [''udp'', ''tcp'', ''icmp'', ''udp'', ''tcp'', ''gre'', ''icmp'']
   \<and> selections 7 (TracerouteTracer_init ''8.8.8.8'' True None)
         [''icmp'', ''udp'', ''tcp'', ''gre'']
     = [''icmp'', ''udp'', ''tcp'', ''icmp'', ''udp'', ''tcp'', ''gre'']"
  by (simp add: capabilities_for_host_def capabilities_def get_traceroute_def
        Traceroute_init_def cycle_protocol_def TracerouteTracer_init_def Let_def
        numeral_eq_Suc)

section \<open>Bound and order of the reverse-name store\<close>

lemma update_absent: "k \<notin> fst ` set d \<Longrightarrow> AList.update k v d = d @ [(k, v)]"
  by (induction d) auto

lemma delete_absent: "k \<notin> fst ` set (AList.delete k d)"
  by (induction d) auto

lemma butlast_keys: "k \<notin> fst ` set d \<Longrightarrow> k \<notin> fst ` set (butlast d)"
  by (auto dest: in_set_butlastD)

lemma length_delete_present:
  "distinct (map fst d) \<Longrightarrow> k \<in> fst ` set d \<Longrightarrow> Suc (length (AList.delete k d)) = length d"
proof (induction d)
  case Nil
  then show ?case by simp
next
  case (Cons p d)
  then show ?case
    by (cases "fst p = k") (auto simp: delete_id)
qed

lemma reader_step_present:
  assumes "distinct (map fst d)" and "int (length d) \<le> max_items" and "ip \<in> fst ` set d"
  shows "reader_step max_items d (ip, names) = Inr (AList.delete ip d @ [(ip, names)])"
proof -
  from assms have "int (length (AList.delete ip d)) < max_items"
    using length_delete_present [of d ip] by simp
  with assms(3) show ?thesis
    by (simp add: reader_step_def Let_def update_absent delete_absent)
qed

lemma reader_step_room:
  assumes "int (length d) < max_items" and "ip \<notin> fst ` set d"
  shows "reader_step max_items d (ip, names) = Inr (d @ [(ip, names)])"
  using assms by (simp add: reader_step_def Let_def update_absent)

lemma reader_step_bound:
  assumes "distinct (map fst d)" and "int (length d) \<le> max_items" and "0 < max_items"
  shows "\<exists>d'. reader_step max_items d item = Inr d' \<and> distinct (map fst d')
               \<and> int (length d') \<le> max_items"
proof -
  obtain ip names where item: "item = (ip, names)" by (cases item)
  show ?thesis
  proof (cases "ip \<in> fst ` set d")
    case True
    with assms have "reader_step max_items d item = Inr (AList.delete ip d @ [(ip, names)])"
      unfolding item by (simp add: reader_step_present)
    moreover have "distinct (map fst (AList.delete ip d @ [(ip, names)]))"
      using assms(1) delete_absent [of ip d] by (simp add: distinct_delete)
    moreover have "int (length (AList.delete ip d @ [(ip, names)])) \<le> max_items"
      using assms(1,2) True length_delete_present [of d ip] by simp
    ultimately show ?thesis by simp
  next
    case False
    show ?thesis
    proof (cases "int (length d) < max_items")
      case True
      with False assms(1) show ?thesis
        unfolding item by (simp add: reader_step_room)
    next
      case full: False
      with assms(3) have ne: "d \<noteq> []" by auto
      from False have nb: "ip \<notin> fst ` set (butlast d)" by (rule butlast_keys)
      have "reader_step max_items d item = Inr (butlast d @ [(ip, names)])"
        unfolding item using False full ne nb
        by (simp add: reader_step_def Let_def popitem_def update_absent)
      moreover have "distinct (map fst (butlast d))"
        using assms(1) by (simp add: map_butlast distinct_butlast)
      then have "distinct (map fst (butlast d @ [(ip, names)]))"
        using nb by simp
      moreover have "int (length (butlast d @ [(ip, names)])) \<le> max_items"
        using assms(2) ne by simp
      ultimately show ?thesis by simp
    qed
  qed
qed

lemma reader_bound:
  assumes "distinct (map fst d)" and "int (length d) \<le> max_items" and "0 < max_items"
  shows "\<exists>d'. reader max_items d items = Inr d' \<and> distinct (map fst d')
               \<and> int (length d') \<le> max_items"
  using assms
proof (induction items arbitrary: d)
  case Nil
  then show ?case by simp
next
  case (Cons item items)
  from Cons.prems obtain d1 where s: "reader_step max_items d item = Inr d1"
    and d1: "distinct (map fst d1)" "int (length d1) \<le> max_items"
    using reader_step_bound [of d max_items item] by blast
  from Cons.IH [OF d1 Cons.prems(3)] s show ?case by simp
qed

lemma reader_default_bound:
  "\<exists>d'. reader MAX_ITEMS [] items = Inr d' \<and> length d' \<le> 5000"
  using reader_bound [of "[]" MAX_ITEMS items] by (auto simp: MAX_ITEMS_def)

text \<open>
  C4 fails on the code in its last part. When the store is at capacity and a new IP is
  recorded, \<open>popitem()\<close> removes the entry at the end of the dictionary, the one recorded
  most recently; the oldest entry stays. (The other two parts hold: \<open>reader_step_bound\<close>
  and \<open>reader_default_bound\<close> keep the store within \<open>max_items\<close>, and \<open>reader_step_present\<close> moves an IP that is
  present to the end.)
\<close>

theorem reader_step_evicts_newest:
  assumes "int (length d) = max_items" and "0 < max_items" and "ip \<notin> fst ` set d"
  shows "reader_step max_items d (ip, names) = Inr (butlast d @ [(ip, names)])"
proof -
  from assms(1,2) have ne: "d \<noteq> []" by auto
  from assms(3) have "ip \<notin> fst ` set (butlast d)" by (rule butlast_keys)
  with assms ne show ?thesis
    by (simp add: reader_step_def Let_def popitem_def update_absent)
qed

text \<open>
  With room for three names: after \<open>a\<close>, \<open>b\<close>, \<open>c\<close> the store is full, and recording \<open>d\<close>
  drops \<open>c\<close>, not \<open>a\<close>.
\<close>

theorem reader_step_evicts_newest_witness:
  "reader 3 [] [(''10.0.0.1'', [''a'']), (''10.0.0.2'', [''b'']), (''10.0.0.3'', [''c''])]
     = Inr [(''10.0.0.1'', [''a'']), (''10.0.0.2'', [''b'']), (''10.0.0.3'', [''c''])]
   \<and> reader_step 3 [(''10.0.0.1'', [''a'']), (''10.0.0.2'', [''b'']), (''10.0.0.3'', [''c''])]
         (''10.0.0.4'', [''d''])
     = Inr [(''10.0.0.1'', [''a'']), (''10.0.0.2'', [''b'']), (''10.0.0.4'', [''d''])]"
  using reader_step_evicts_newest [of
      "[(''10.0.0.1'', [''a'']), (''10.0.0.2'', [''b'']), (''10.0.0.3'', [''c''])]" 3
      "''10.0.0.4''" "[''d'']"]
  by (simp add: reader_step_def Let_def)

section \<open>ROA validity\<close>

lemma roa_valid_str:
  assumes "asn \<noteq> []" and "asn \<noteq> ''*''" and "prefix \<noteq> []" and "prefix \<noteq> ''*''"
  shows "roa_valid roas (PyStr asn) prefix =
           ((str (PyStr asn), prefix) \<in> set (map (\<lambda>r. (str (roa_asn r), str (roa_prefix r))) roas))"
  using assms by (auto simp: roa_valid_def Let_def)

lemma roa_valid_int: "roa_valid roas (PyInt i) prefix = False"
  by (auto simp: roa_valid_def Let_def)

lemma roa_valid_empty:
  "roa_valid roas (PyStr []) prefix = False" "roa_valid roas (PyStr ''*'') prefix = False"
  "roa_valid roas asn [] = False" "roa_valid roas asn ''*'' = False"
  by (simp_all add: roa_valid_def)

text \<open>
  C6 fails on the code for an integer \<open>asn\<close>, which the signature admits. The VRPs hold
  AS 13335 with prefix 1.0.0.0/24, so the tuple \<open>(str(asn), str(prefix))\<close> is in the list;
  \<open>roa_valid(13335, '1.0.0.0/24')\<close> compares the integer with the strings of the list
  and returns false. (For a string \<open>asn\<close> the claim holds, by \<open>roa_valid_str\<close> and
  \<open>roa_valid_empty\<close>.)
\<close>

theorem roa_valid_int_asn_never_valid:
  "(str (PyInt 13335), ''1.0.0.0/24'')
     \<in> set (map (\<lambda>r. (str (roa_asn r), str (roa_prefix r)))
              [\<lparr> roa_asn = PyInt 13335, roa_prefix = PyStr ''1.0.0.0/24'' \<rparr>])
   \<and> roa_valid [\<lparr> roa_asn = PyInt 13335, roa_prefix = PyStr ''1.0.0.0/24'' \<rparr>]
         (PyInt 13335) ''1.0.0.0/24'' = False
   \<and> roa_valid [\<lparr> roa_asn = PyInt 13335, roa_prefix = PyStr ''1.0.0.0/24'' \<rparr>]
         (PyStr ''13335'') ''1.0.0.0/24'' = True"
  by (simp add: roa_valid_def Let_def str_int_def)

section \<open>Expiry of the hop cache\<close>

lemma delete_set: "set (AList.delete k d) = {p \<in> set d. fst p \<noteq> k}"
  by (auto simp: AList.delete_eq)

lemma foldl_delete_cache:
  "set (foldl (\<lambda>c hop. if hop \<in> fst ` set c then AList.delete hop c else c) c hs)
     = {p \<in> set c. fst p \<notin> set hs}"
proof (induction hs arbitrary: c)
  case Nil
  then show ?case by simp
next
  case (Cons h hs)
  have "set (if h \<in> fst ` set c then AList.delete h c else c) = {p \<in> set c. fst p \<noteq> h}"
    by (auto simp: delete_set)
  with Cons.IH show ?case by auto
qed

lemma foldl_delete_index:
  "set (foldl (\<lambda>d t. AList.delete t d) d ts) = {p \<in> set d. fst p \<notin> set ts}"
  by (induction ts arbitrary: d) (auto simp: delete_set)

lemma expire_index:
  "set (hop_cache_expire (expire now s)) = {p \<in> set (hop_cache_expire s). \<not> fst p < now}"
  by (auto simp: expire_def Let_def foldl_delete_index)

lemma expire_cache:
  "set (hop_cache (expire now s)) =
     {p \<in> set (hop_cache s).
        \<forall>q \<in> set (hop_cache_expire s). fst q < now \<longrightarrow> fst p \<notin> set (snd q)}"
  by (auto simp: expire_def Let_def foldl_delete_cache)

lemma indexed_expire: "indexed s \<Longrightarrow> indexed (expire now s)"
  unfolding indexed_def expire_index expire_cache by fastforce

lemma map_entry_buckets:
  "p \<in> set d \<Longrightarrow> \<exists>q \<in> set (AList.map_entry k (\<lambda>l. l @ [v]) d). fst q = fst p \<and> set (snd p) \<subseteq> set (snd q)"
  by (induction d) (auto split: if_splits)

lemma map_entry_adds:
  "k \<in> fst ` set d \<Longrightarrow> \<exists>q \<in> set (AList.map_entry k (\<lambda>l. l @ [v]) d). fst q = k \<and> v \<in> set (snd q)"
  by (induction d) (auto split: if_splits)

lemma setdefault_append_keeps:
  "p \<in> set d \<Longrightarrow> \<exists>q \<in> set (setdefault_append k v d). fst q = fst p \<and> set (snd p) \<subseteq> set (snd q)"
  using map_entry_buckets [of p d k v] by (auto simp: setdefault_append_def)

lemma setdefault_append_adds:
  "\<exists>q \<in> set (setdefault_append k v d). fst q = k \<and> v \<in> set (snd q)"
  using map_entry_adds [of k d v] by (auto simp: setdefault_append_def)

lemma update_keys: "fst ` set (AList.update k v d) = insert k (fst ` set d)"
  by (simp add: dom_update)

lemma indexed_finish: "indexed s \<Longrightarrow> indexed (hop_info_finish now ttl ip r s)"
proof (cases "info_asn r \<noteq> Some ''*'' \<and> info_asn r \<noteq> Some ''NA''")
  case False
  assume "indexed s"
  with False show ?thesis by (auto simp: hop_info_finish_def)
next
  case True
  assume inv: "indexed s"
  let ?idx = "setdefault_append (now + real_of_int ttl) ip (hop_cache_expire s)"
  have "\<exists>p \<in> set ?idx. x \<in> set (snd p)" if "x \<in> insert ip (fst ` set (hop_cache s))" for x
  proof (cases "x = ip")
    case True
    then show ?thesis using setdefault_append_adds [of "now + real_of_int ttl" ip "hop_cache_expire s"]
      by blast
  next
    case False
    with that have "x \<in> fst ` set (hop_cache s)" by simp
    with inv obtain p where "p \<in> set (hop_cache_expire s)" "x \<in> set (snd p)"
      unfolding indexed_def by blast
    then show ?thesis
      using setdefault_append_keeps [of p "hop_cache_expire s" "now + real_of_int ttl" ip] by blast
  qed
  with True show ?thesis
    by (simp add: indexed_def hop_info_finish_def update_keys)
qed

lemma indexed_step: "indexed s \<Longrightarrow> indexed (cache_step s ev)"
  by (cases ev) (simp_all add: hop_info_begin_def Let_def indexed_expire indexed_finish)

lemma indexed_run: "indexed (run_cache evs)"
proof -
  have "indexed s \<Longrightarrow> indexed (foldl cache_step s evs)" for s
    by (induction evs arbitrary: s) (simp_all add: indexed_step)
  moreover have "indexed empty_cache" by (simp add: indexed_def empty_cache_def)
  ultimately show ?thesis by (simp add: run_cache_def)
qed

text \<open>
  C7, as the code has it. In every state the cache reaches, a call of \<open>hop_info\<close> at time
  \<open>now\<close> first drops every expiry bucket whose time is strictly less than \<open>now\<close> and
  removes every IP listed in such a bucket from the cache. If the call then returns a
  cached record for \<open>ip\<close>, the IP is listed under an expiry time, and every expiry time
  left is greater than or equal to \<open>now\<close>: an entry whose expiry time equals \<open>now\<close> is
  still returned.
\<close>

theorem hop_cache_hit_not_expired:
  assumes "hop_info_begin now ip (run_cache evs) = (Some r, s')"
  shows "(\<exists>p \<in> set (hop_cache_expire s'). ip \<in> set (snd p) \<and> now \<le> fst p)
       \<and> (\<forall>p \<in> set (hop_cache_expire s'). now \<le> fst p)
       \<and> (\<forall>p \<in> set (hop_cache_expire (run_cache evs)).
            fst p < now \<longrightarrow> (\<forall>h \<in> set (snd p). h \<notin> fst ` set (hop_cache s')))"
proof -
  from assms have s': "s' = expire now (run_cache evs)"
    and hit: "map_of (hop_cache s') ip = Some r"
    by (auto simp: hop_info_begin_def Let_def)
  have fresh: "\<forall>p \<in> set (hop_cache_expire s'). now \<le> fst p"
    unfolding s' expire_index by auto
  have "indexed s'"
    unfolding s' by (rule indexed_expire) (rule indexed_run)
  moreover from hit have "ip \<in> fst ` set (hop_cache s')"
    by (metis map_of_SomeD fst_conv image_eqI)
  ultimately obtain p where "p \<in> set (hop_cache_expire s')" "ip \<in> set (snd p)"
    unfolding indexed_def by blast
  with fresh have listed: "\<exists>p \<in> set (hop_cache_expire s'). ip \<in> set (snd p) \<and> now \<le> fst p"
    by blast
  have swept: "\<forall>p \<in> set (hop_cache_expire (run_cache evs)).
            fst p < now \<longrightarrow> (\<forall>h \<in> set (snd p). h \<notin> fst ` set (hop_cache s'))"
    unfolding s' expire_cache by auto
  from listed fresh swept show ?thesis by blast
qed

text \<open>
  8.8.8.8 is looked up at time 0 (a miss) and cached at time 1 for an hour; the call at
  time 100 is a hit, and the expiry 3601 is listed.
\<close>

theorem hop_cache_hit_not_expired_witness:
  "hop_info_begin 100 ''8.8.8.8''
     (run_cache [Begin 0 ''8.8.8.8'', Finish 1 3600 ''8.8.8.8'' google_info])
   = (Some google_info,
      \<lparr> hop_cache = [(''8.8.8.8'', google_info)],
        hop_cache_expire = [(3601, [''8.8.8.8''])] \<rparr>)"
  using hop_cache_hit_not_expired [of 100 "''8.8.8.8''"
          "[Begin 0 ''8.8.8.8'', Finish 1 3600 ''8.8.8.8'' google_info]" google_info
          "\<lparr> hop_cache = [(''8.8.8.8'', google_info)],
             hop_cache_expire = [(3601, [''8.8.8.8''])] \<rparr>"]
  by (simp add: run_cache_def empty_cache_def hop_info_begin_def hop_info_finish_def expire_def
        setdefault_append_def Let_def)

text \<open>
  C7 as stated fails at the boundary: a record cached at time 0 for 100 seconds is
  returned by the call at time 100, when its expiry time 100 is not greater than the
  current time (the sweep removes only what is strictly less).
\<close>

theorem hop_cache_hit_at_expiry_counterexample:
  "hop_info_begin 100 ''8.8.8.8''
     (run_cache [Begin 0 ''8.8.8.8'', Finish 0 100 ''8.8.8.8'' google_info])
   = (Some google_info,
      \<lparr> hop_cache = [(''8.8.8.8'', google_info)],
        hop_cache_expire = [(100, [''8.8.8.8''])] \<rparr>)"
  by (simp add: run_cache_def empty_cache_def hop_info_begin_def hop_info_finish_def expire_def
        setdefault_append_def Let_def)

section \<open>Port updates by the supervisor\<close>

lemma tick_addr_inv:
  assumes "tick_inv a0 st" and "tick_addr l rd tp ds st entry = Inr st'"
  shows "tick_inv a0 st'"
proof -
  obtain addr ports where e: "entry = (addr, ports)" by (cases entry)
  show ?thesis
    using assms unfolding e tick_addr_def tick_inv_def
    by (auto simp: Let_def split: if_splits option.splits)
qed

lemma tick_addrs_inv:
  "tick_inv a0 st \<Longrightarrow> tick_addrs l rd tp ds st es = Inr st' \<Longrightarrow> tick_inv a0 st'"
proof (induction es arbitrary: st)
  case Nil
  then show ?case by simp
next
  case (Cons entry es)
  then show ?case
    by (auto split: sum.splits dest: tick_addr_inv)
qed

lemma running_tracers_untouched:
  assumes "tick_start_and_update l rd tp snap active = Inr active'"
  shows "take (length active) active' = active"
proof -
  from assms obtain st where r: "tick_addrs l rd tp (map self_destination active)
             \<lparr> active_tracers = active, tracer_var = None \<rparr> (entries snap) = Inr st"
    and a: "active' = active_tracers st"
    by (auto simp: tick_start_and_update_def split: sum.splits)
  have "tick_inv active \<lparr> active_tracers = active, tracer_var = None \<rparr>"
    by (simp add: tick_inv_def)
  from tick_addrs_inv [OF this r] a show ?thesis
    by (simp add: tick_inv_def)
qed

text \<open>
  C5 fails on the code. The tracer for 8.8.8.8 runs with ports \<open>443\<close>. In a tick whose
  snapshot gives 8.8.8.8 the ports \<open>80\<close>, the tracer keeps \<open>443\<close>: the assignment goes
  through the loop variable \<open>tracer\<close>, which is \<open>None\<close> there. When the snapshot lists a
  new destination 1.1.1.1 first, \<open>tracer\<close> is the tracer just started for it, and that
  one ends with the ports of 8.8.8.8. By \<open>running_tracers_untouched\<close> no tick changes a
  tracer that was already running.
\<close>

theorem running_tracer_dports_not_updated:
  "map_sum id (map (\<lambda>t. (self_destination t, self_dports t)))
     (tick_start_and_update ''192.0.2.1'' [] None
        (Mapping [(''8.8.8.8'', [''80''])])
        [(TracerouteTracer_init ''8.8.8.8'' True None)
           \<lparr> running := True, self_dports := PortsTuple [''443''] \<rparr>])
     = Inr [(''8.8.8.8'', PortsTuple [''443''])]
   \<and> map_sum id (map (\<lambda>t. (self_destination t, self_dports t)))
     (tick_start_and_update ''192.0.2.1'' [] None
        (Mapping [(''1.1.1.1'', [''53'']), (''8.8.8.8'', [''80''])])
        [(TracerouteTracer_init ''8.8.8.8'' True None)
           \<lparr> running := True, self_dports := PortsTuple [''443''] \<rparr>])
     = Inr [(''8.8.8.8'', PortsTuple [''443'']), (''1.1.1.1'', PortsTuple [''80''])]"
  by (simp add: tick_start_and_update_def tick_addr_def TracerouteTracer_init_def lookup_def
        Let_def)

section \<open>The publication map of a subscriber\<close>

lemma map_entry_keys: "map fst (AList.map_entry k f d) = map fst d"
  by (induction d) auto

lemma map_entry_set:
  "p \<in> set (AList.map_entry k (\<lambda>l. l @ [v]) d) \<Longrightarrow>
     p \<in> set d \<or> (\<exists>l. (k, l) \<in> set d \<and> p = (k, l @ [v]))"
  by (induction d) (auto split: if_splits)

lemma keyed_setdefault:
  assumes "keyed d"
  shows "keyed (setdefault_append dst (s, dst) d)"
proof (cases "dst \<in> fst ` set d")
  case True
  have "\<forall>k \<in> set (snd p). snd k = fst p"
    if "p \<in> set (AList.map_entry dst (\<lambda>l. l @ [(s, dst)]) d)" for p
    using map_entry_set [OF that] assms by (fastforce simp: keyed_def)
  with True assms show ?thesis
    by (simp add: setdefault_append_def keyed_def map_entry_keys)
next
  case False
  with assms show ?thesis
    by (auto simp: setdefault_append_def keyed_def)
qed

lemma keyed_delete: "keyed d \<Longrightarrow> keyed (AList.delete dst d)"
  by (auto simp: keyed_def distinct_delete delete_set)

lemma keyed_publish_active:
  "keyed d \<Longrightarrow> publish_active d out ts = (d', out') \<Longrightarrow> keyed d'"
proof (induction d out ts rule: publish_active.induct)
  case (1 d out)
  then show ?case by simp
next
  case (2 d out trace_entry rest)
  then show ?case
    by (auto simp: Let_def keyed_setdefault split: if_splits)
qed

lemma keyed_publish_removed:
  "keyed d \<Longrightarrow> publish_removed d out ts = Inr (d', out') \<Longrightarrow> keyed d'"
proof (induction d out ts rule: publish_removed.induct)
  case (1 d out)
  then show ?case by simp
next
  case (2 d out t ts)
  then show ?case
    by (auto simp: keyed_delete split: if_splits)
qed

lemma keyed_send_traces:
  "keyed d \<Longrightarrow> send_traces d out active removed = Inr (d', out') \<Longrightarrow> keyed d'"
  by (auto simp: send_traces_def split: prod.splits
           dest: keyed_publish_active keyed_publish_removed)

lemma keyed_handler_rounds:
  "keyed d \<Longrightarrow> handler_rounds d out rounds = Inr (d', out') \<Longrightarrow> keyed d'"
proof (induction d out rounds rule: handler_rounds.induct)
  case (1 d out)
  then show ?case by simp
next
  case (2 d out active removed rounds)
  then show ?case
    by (auto split: sum.splits dest: keyed_send_traces)
qed

lemma keyed_handler: "websocket_handler rounds = Inr (d, out) \<Longrightarrow> keyed d"
  using keyed_handler_rounds [of "[]" "[ClearCache]" rounds d out]
  by (simp add: websocket_handler_def keyed_def)

lemma keyed_member:
  assumes "keyed d"
  shows "k \<in> set (all_processed_traces d) \<longleftrightarrow> k \<in> set (processed_for d (snd k))"
proof
  assume "k \<in> set (all_processed_traces d)"
  then obtain p where p: "p \<in> set d" "k \<in> set (snd p)"
    by (auto simp: all_processed_traces_def)
  with assms have "fst p = snd k" by (auto simp: keyed_def)
  with p have "(snd k, snd p) \<in> set d" by (metis prod.collapse)
  with assms have "map_of d (snd k) = Some (snd p)" by (simp add: keyed_def)
  with p show "k \<in> set (processed_for d (snd k))" by (simp add: processed_for_def)
next
  assume "k \<in> set (processed_for d (snd k))"
  then obtain l where "map_of d (snd k) = Some l" "k \<in> set l"
    by (cases "map_of d (snd k)") (auto simp: processed_for_def)
  then have "(snd k, l) \<in> set d" "k \<in> set l"
    by (simp_all add: map_of_SomeD)
  then show "k \<in> set (all_processed_traces d)"
    by (force simp: all_processed_traces_def)
qed

lemma keyed_delete_keys:
  assumes "keyed d"
  shows "set (all_processed_traces (AList.delete dst d))
           = {k \<in> set (all_processed_traces d). snd k \<noteq> dst}"
proof (intro set_eqI iffI)
  fix k
  assume "k \<in> set (all_processed_traces (AList.delete dst d))"
  then obtain p where p: "p \<in> set d" "fst p \<noteq> dst" "k \<in> set (snd p)"
    by (auto simp: all_processed_traces_def delete_set)
  with assms have "snd k = fst p" by (auto simp: keyed_def)
  with p show "k \<in> {k \<in> set (all_processed_traces d). snd k \<noteq> dst}"
    by (auto simp: all_processed_traces_def)
next
  fix k
  assume "k \<in> {k \<in> set (all_processed_traces d). snd k \<noteq> dst}"
  then obtain p where p: "p \<in> set d" "k \<in> set (snd p)" and k: "snd k \<noteq> dst"
    by (auto simp: all_processed_traces_def)
  with assms have "fst p = snd k" by (auto simp: keyed_def)
  with p k have "p \<in> set (AList.delete dst d)" by (simp add: delete_set)
  with p show "k \<in> set (all_processed_traces (AList.delete dst d))"
    unfolding all_processed_traces_def by (auto intro: bexI [of _ p])
qed

text \<open>
  C10. Whatever tracer lists the rounds of a connection see, the map the handler holds
  after them stores under a destination only keys that name that destination. Hence a
  key is among the keys of all destinations exactly when it is in the list of its own
  destination, and deleting a destination removes exactly the keys that name it.
\<close>

theorem publication_map_keyed_by_destination:
  assumes "websocket_handler rounds = Inr (d, out)"
  shows "(\<forall>p \<in> set d. \<forall>k \<in> set (snd p). snd k = fst p)
       \<and> (\<forall>k. (k \<in> set (all_processed_traces d)) = (k \<in> set (processed_for d (snd k))))
       \<and> (\<forall>dst. set (all_processed_traces (AList.delete dst d))
                   = {k \<in> set (all_processed_traces d). snd k \<noteq> dst})"
proof -
  from assms have k: "keyed d" by (rule keyed_handler)
  then have "\<forall>p \<in> set d. \<forall>k \<in> set (snd p). snd k = fst p"
    by (simp add: keyed_def)
  moreover from k have "\<forall>k. (k \<in> set (all_processed_traces d))
                              = (k \<in> set (processed_for d (snd k)))"
    by (simp add: keyed_member)
  moreover from k have "\<forall>dst. set (all_processed_traces (AList.delete dst d))
                   = {k \<in> set (all_processed_traces d). snd k \<noteq> dst}"
    by (simp add: keyed_delete_keys)
  ultimately show ?thesis by blast
qed

text \<open>
  One round with two active tracers, 8.8.8.8 with records started at 0 and 5 and 1.1.1.1
  with one started at 1: three frames follow \<open>clear_cache\<close>, and deleting 8.8.8.8 from
  the map leaves the key of 1.1.1.1.
\<close>

theorem publication_map_keyed_by_destination_witness:
  "map_sum id fst (websocket_handler
      [([tracer_with ''8.8.8.8'' [trace_at 0 ''8.8.8.8'', trace_at 5 ''8.8.8.8''],
         tracer_with ''1.1.1.1'' [trace_at 1 ''1.1.1.1'']], [])])
     = Inr [(''8.8.8.8'', [(0, ''8.8.8.8''), (5, ''8.8.8.8'')]),
            (''1.1.1.1'', [(1, ''1.1.1.1'')])]
   \<and> set (all_processed_traces (AList.delete ''8.8.8.8''
           [(''8.8.8.8'', [(0, ''8.8.8.8''), (5, ''8.8.8.8'')]),
            (''1.1.1.1'', [(1, ''1.1.1.1'')])]))
     = {(1, ''1.1.1.1'')}"
proof -
  have h: "websocket_handler
      [([tracer_with ''8.8.8.8'' [trace_at 0 ''8.8.8.8'', trace_at 5 ''8.8.8.8''],
         tracer_with ''1.1.1.1'' [trace_at 1 ''1.1.1.1'']], [])]
     = Inr ([(''8.8.8.8'', [(0, ''8.8.8.8''), (5, ''8.8.8.8'')]),
             (''1.1.1.1'', [(1, ''1.1.1.1'')])],
            [ClearCache, TraceFrame (trace_at 0 ''8.8.8.8'') True,
             TraceFrame (trace_at 5 ''8.8.8.8'') True,
             TraceFrame (trace_at 1 ''1.1.1.1'') True])"
    by (simp add: websocket_handler_def send_traces_def TracerouteTracer_init_def Let_def
          all_processed_traces_def setdefault_append_def)
  from publication_map_keyed_by_destination [OF h] h show ?thesis
    by (simp add: all_processed_traces_def)
qed

end
